theory Spec2Isabelle
  imports Complex_Main "HOL-Library.Sublist"
begin

section \<open>Values of the hook payload\<close>

text \<open>
  Both hooks read one JSON document from standard input with \<^verbatim>\<open>json.load\<close>. The value
  it returns is modelled by the datatype below. A Python \<^verbatim>\<open>dict\<close> is an association list
  (a dict holds one entry per key, which \<open>map_of\<close> reads). Strings are lists of
  8-bit characters, read as the code points U+0000 to U+00FF; floating point numbers
  are idealised as reals, the program only tests them for zero.
\<close>

datatype json =
    JNull
  | JBool bool
  | JInt int
  | JFloat real
  | JStr string
  | JArr "json list"
  | JObj "(string \<times> json) list"

type_synonym dict = "(string \<times> json) list"

datatype py_error =
    AttributeError | TypeError | OSError | RecursionError | UnicodeDecodeError

text \<open>\<^verbatim>\<open>data.get(key, default)\<close> on a dict.\<close>

definition dict_get :: "dict \<Rightarrow> string \<Rightarrow> json \<Rightarrow> json" where
  "dict_get data key dflt = (case map_of data key of None \<Rightarrow> dflt | Some v \<Rightarrow> v)"

text \<open>Truth value of an object, as \<^verbatim>\<open>if x\<close> and \<^verbatim>\<open>x and y\<close> test it.\<close>

fun truthy :: "json \<Rightarrow> bool" where
  "truthy JNull = False"
| "truthy (JBool b) = b"
| "truthy (JInt n) = (n \<noteq> 0)"
| "truthy (JFloat x) = (x \<noteq> 0)"
| "truthy (JStr s) = (s \<noteq> [])"
| "truthy (JArr xs) = (xs \<noteq> [])"
| "truthy (JObj kvs) = (kvs \<noteq> [])"

text \<open>\<^verbatim>\<open>needle in haystack\<close> on two strings: the needle occurs as a contiguous substring.\<close>

fun str_in :: "string \<Rightarrow> string \<Rightarrow> bool" where
  "str_in needle [] = (needle = [])"
| "str_in needle (c # cs) = (prefix needle (c # cs) \<or> str_in needle cs)"

text \<open>
  \<^verbatim>\<open>needle in v\<close> for a string needle and any value: substring test on a string,
  membership in a list, key membership in a dict, and a TypeError on everything else.
\<close>

fun py_in :: "string \<Rightarrow> json \<Rightarrow> py_error + bool" where
  "py_in needle (JStr s) = Inr (str_in needle s)"
| "py_in needle (JArr xs) = Inr (JStr needle \<in> set xs)"
| "py_in needle (JObj kvs) = Inr (needle \<in> fst ` set kvs)"
| "py_in needle v = Inl TypeError"

section \<open>Regular expressions of the \<^verbatim>\<open>re\<close> module\<close>

text \<open>
  The patterns of the hook use literal characters, the classes \<^verbatim>\<open>\s\<close>, \<^verbatim>\<open>.\<close>,
  \<^verbatim>\<open>[a-zA-Z]\<close> and small character sets, the repetitions \<^verbatim>\<open>*\<close> and \<^verbatim>\<open>+\<close> of one
  character class, alternation, grouping and the word boundary \<^verbatim>\<open>\b\<close>.
  \<^verbatim>\<open>re.search\<close> is used for its truth value only: is there a match anywhere.
\<close>

definition is_space :: "char \<Rightarrow> bool" where
  "is_space c = (c \<in> {CHR 0x09, CHR 0x0A, CHR 0x0B, CHR 0x0C, CHR 0x0D,
                       CHR 0x1C, CHR 0x1D, CHR 0x1E, CHR 0x1F, CHR 0x20, CHR 0x85, CHR 0xA0})"

definition in_range :: "nat \<Rightarrow> nat \<Rightarrow> char \<Rightarrow> bool" where
  "in_range lo hi c = (lo \<le> of_char c \<and> of_char c \<le> (hi::nat))"

definition is_letter :: "char \<Rightarrow> bool" where
  "is_letter c = (in_range 0x61 0x7A c \<or> in_range 0x41 0x5A c)"

text \<open>\<^verbatim>\<open>\w\<close> on a \<^verbatim>\<open>str\<close> pattern: alphanumeric in Unicode, or the underscore.\<close>

definition is_word :: "char \<Rightarrow> bool" where
  "is_word c = (in_range 0x30 0x39 c \<or> in_range 0x41 0x5A c \<or> c = CHR ''_'' \<or> in_range 0x61 0x7A c
     \<or> c = CHR 0xAA \<or> in_range 0xB2 0xB3 c \<or> c = CHR 0xB5 \<or> in_range 0xB9 0xBA c
     \<or> in_range 0xBC 0xBE c \<or> in_range 0xC0 0xD6 c \<or> in_range 0xD8 0xF6 c \<or> in_range 0xF8 0xFF c)"

datatype atom =
    Lit char
  | Dot
  | Space
  | Letter
  | OneOf string

fun atom_ok :: "atom \<Rightarrow> char \<Rightarrow> bool" where
  "atom_ok (Lit a) c = (c = a)"
| "atom_ok Dot c = (c \<noteq> CHR 0x0A)"
| "atom_ok Space c = is_space c"
| "atom_ok Letter c = is_letter c"
| "atom_ok (OneOf cs) c = (c \<in> set cs)"

datatype regex =
    Eps
  | Atom atom
  | Star atom
  | Plus atom
  | WordB
  | Seq regex regex
  | Alt regex regex

text \<open>
  A position in the subject is the character before it (none at the start) and the text
  from it on. \<open>run r pos\<close> lists every position at which a match of \<open>r\<close> that starts at
  \<open>pos\<close> can end.
\<close>

type_synonym pos = "char option \<times> string"

fun star_atom :: "atom \<Rightarrow> char option \<Rightarrow> string \<Rightarrow> pos list" where
  "star_atom a p [] = [(p, [])]"
| "star_atom a p (c # cs) = (p, c # cs) # (if atom_ok a c then star_atom a (Some c) cs else [])"

definition word_at :: "char option \<Rightarrow> bool" where
  "word_at p = (case p of None \<Rightarrow> False | Some c \<Rightarrow> is_word c)"

fun next_char :: "string \<Rightarrow> char option" where
  "next_char [] = None"
| "next_char (c # cs) = Some c"

fun run :: "regex \<Rightarrow> pos \<Rightarrow> pos list" where
  "run Eps st = [st]"
| "run (Atom a) (p, []) = []"
| "run (Atom a) (p, c # cs) = (if atom_ok a c then [(Some c, cs)] else [])"
| "run (Star a) (p, s) = star_atom a p s"
| "run (Plus a) (p, []) = []"
| "run (Plus a) (p, c # cs) = (if atom_ok a c then star_atom a (Some c) cs else [])"
| "run WordB (p, s) = (if word_at p \<noteq> word_at (next_char s) then [(p, s)] else [])"
| "run (Seq r1 r2) st = concat (map (run r2) (run r1 st))"
| "run (Alt r1 r2) st = run r1 st @ run r2 st"

fun search_from :: "regex \<Rightarrow> char option \<Rightarrow> string \<Rightarrow> bool" where
  "search_from r p [] = (run r (p, []) \<noteq> [])"
| "search_from r p (c # cs) = (run r (p, c # cs) \<noteq> [] \<or> search_from r (Some c) cs)"

text \<open>The truth value of \<^verbatim>\<open>re.search(pattern, s)\<close>.\<close>

definition re_search :: "regex \<Rightarrow> string \<Rightarrow> bool" where
  "re_search r s = search_from r None s"

text \<open>Writing patterns: a sequence of parts, and a literal word.\<close>

definition seq :: "regex list \<Rightarrow> regex" where
  "seq rs = foldr Seq rs Eps"

definition lit :: "string \<Rightarrow> regex" where
  "lit s = seq (map (\<lambda>c. Atom (Lit c)) s)"

section \<open>\<^verbatim>\<open>pre_tool_use.py\<close>: the rule checks\<close>

text \<open>\<^verbatim>\<open>command.split()\<close>: the maximal runs of characters that are not whitespace.\<close>

fun split_acc :: "string \<Rightarrow> string \<Rightarrow> string list" where
  "split_acc w [] = (if w = [] then [] else [w])"
| "split_acc w (c # cs) =
     (if is_space c then (if w = [] then split_acc [] cs else w # split_acc [] cs)
      else split_acc (w @ [c]) cs)"

definition split :: "string \<Rightarrow> string list" where
  "split s = split_acc [] s"

text \<open>\<^verbatim>\<open>" ".join(words)\<close>.\<close>

fun join :: "string list \<Rightarrow> string" where
  "join [] = []"
| "join [w] = w"
| "join (w # v # ws) = w @ '' '' @ join (v # ws)"

definition rm_patterns :: "regex list" where
  "rm_patterns =
    [ seq [WordB, lit ''rm'', Plus Space,
           Alt (seq [lit ''-'', Star Letter, lit ''r'', Star Letter, lit ''f'', Star Letter])
               (seq [lit ''--recursive'', Plus Space, lit ''--force''])],
      seq [WordB, lit ''rm'', Plus Space,
           Alt (seq [lit ''-'', Star Letter, lit ''f'', Star Letter, lit ''r'', Star Letter])
               (seq [lit ''--force'', Plus Space, lit ''--recursive''])],
      seq [WordB, lit ''rm'', Plus Space, lit ''-'', Atom (OneOf ''rR''), lit ''f''],
      seq [WordB, lit ''rm'', Plus Space, lit ''-f'', Atom (OneOf ''rR'')] ]"

definition dangerous_paths :: "string list" where
  "dangerous_paths = [''/'', ''/*'', ''~'', ''$HOME'', ''..'', ''*'', ''.'']"

definition rm_pattern2 :: regex where
  "rm_pattern2 =
     seq [WordB, lit ''rm'', Plus Space, lit ''-'', Atom (OneOf ''rR''), lit ''f'', Plus Space,
          Atom (OneOf ''~/.'')]"

definition is_dangerous_rm_command :: "string \<Rightarrow> bool" where
  "is_dangerous_rm_command command =
     (let cmd = join (split command) in
      if list_ex (\<lambda>pattern. re_search pattern cmd \<and> list_ex (\<lambda>path. str_in path cmd) dangerous_paths)
           rm_patterns
      then True
      else if re_search rm_pattern2 cmd then True
      else False)"

definition env_patterns :: "regex list" where
  "env_patterns =
    [ seq [lit ''cat'', Plus Space, lit ''.env''],
      seq [lit ''echo'', Plus Space, Star Dot, lit ''>'', Star Space, lit ''.env''],
      seq [lit ''touch'', Plus Space, lit ''.env''],
      seq [lit ''cp'', Plus Space, Star Dot, lit ''.env''],
      seq [lit ''mv'', Plus Space, Star Dot, lit ''.env''] ]"

text \<open>\<^verbatim>\<open>re.search(pattern, v)\<close> raises a TypeError when \<open>v\<close> is not a string.\<close>

fun search_any :: "regex list \<Rightarrow> json \<Rightarrow> py_error + bool" where
  "search_any [] v = Inr False"
| "search_any (pattern # rest) v =
     (case v of
        JStr s \<Rightarrow> if re_search pattern s then Inr True else search_any rest v
      | _ \<Rightarrow> Inl TypeError)"

text \<open>\<^verbatim>\<open>a in v or b in v\<close>: the second test runs only when the first is false.\<close>

definition in_either :: "string \<Rightarrow> string \<Rightarrow> json \<Rightarrow> py_error + bool" where
  "in_either a b v =
     (case py_in a v of
        Inl e \<Rightarrow> Inl e
      | Inr True \<Rightarrow> Inr True
      | Inr False \<Rightarrow> py_in b v)"

definition env_tools :: "json list" where
  "env_tools = [JStr ''Read'', JStr ''Edit'', JStr ''MultiEdit'', JStr ''Write'', JStr ''Bash'']"

text \<open>
  \<^verbatim>\<open>is_env_file_access\<close>. Its last part, the check of a Bash command (lines 76 to 92), is
  \<open>bash_env_access\<close>; it is reached only when the test of the file path has not returned.
\<close>

definition bash_env_access :: "dict \<Rightarrow> py_error + bool" where
  "bash_env_access data =
     (let command = dict_get data ''command'' (JStr '''') in
      case py_in ''.env'' command of
        Inl e \<Rightarrow> Inl e
      | Inr False \<Rightarrow> Inr False
      | Inr True \<Rightarrow>
          (case in_either ''.env.sample'' ''.env.example'' command of
             Inl e \<Rightarrow> Inl e
           | Inr True \<Rightarrow> Inr False
           | Inr False \<Rightarrow> search_any env_patterns command))"

definition is_env_file_access :: "json \<Rightarrow> dict \<Rightarrow> py_error + bool" where
  "is_env_file_access tool_name data =
     (if tool_name \<notin> set env_tools then Inr False
      else
        let file_path = dict_get data ''file_path'' (JStr '''') in
        case (if truthy file_path then py_in ''.env'' file_path else Inr False) of
          Inl e \<Rightarrow> Inl e
        | Inr True \<Rightarrow>
            (case in_either ''.env.sample'' ''.env.example'' file_path of
               Inl e \<Rightarrow> Inl e
             | Inr True \<Rightarrow> Inr False
             | Inr False \<Rightarrow> Inr True)
        | Inr False \<Rightarrow>
            (if tool_name = JStr ''Bash'' then bash_env_access data else Inr False))"

text \<open>
  The outcome of the rule checks of \<^verbatim>\<open>main\<close> (lines 139 to 155), which the specification
  calls \<^verbatim>\<open>evaluate\<close>: the hook lets the call through, or blocks it with the lines it
  prints on the error channel. The cross mark U+274C that opens the first line is written
  as its three UTF-8 bytes.
\<close>

datatype decision = ALLOW | BLOCK "string list"

definition cross_mark :: string where
  "cross_mark = [CHR 0xE2, CHR 0x9D, CHR 0x8C]"

definition env_reason :: "string list" where
  "env_reason =
     [cross_mark @ '' Error: Access to .env files is blocked for security.'',
      ''Use .env.sample for templates.'']"

definition rm_reason :: "string \<Rightarrow> string list" where
  "rm_reason command =
     [cross_mark @ '' Error: Dangerous rm command blocked.'',
      ''Command: '' @ command,
      ''This could delete important system files.'']"

definition evaluate :: "json \<Rightarrow> dict \<Rightarrow> py_error + decision" where
  "evaluate tool_name data =
     (case is_env_file_access tool_name data of
        Inl e \<Rightarrow> Inl e
      | Inr True \<Rightarrow> Inr (BLOCK env_reason)
      | Inr False \<Rightarrow>
          (if tool_name = JStr ''Bash'' then
             (case dict_get data ''command'' (JStr '''') of
                JStr command \<Rightarrow>
                  if is_dangerous_rm_command command then Inr (BLOCK (rm_reason command))
                  else Inr ALLOW
              | _ \<Rightarrow> Inl AttributeError)
           else Inr ALLOW))"

section \<open>The audit log\<close>

text \<open>
  A text, the standard input of a hook or a log file, is known by what \<^verbatim>\<open>json.load\<close> makes
  of it: a value; a JSONDecodeError; or another exception, which \<^verbatim>\<open>json.load\<close> raises on
  some texts that are not JSON either (RecursionError on very deep nesting,
  UnicodeDecodeError on bytes that are not UTF-8 when the stream decodes strictly) and
  which no \<^verbatim>\<open>except\<close> clause of the hooks names.
\<close>

datatype json_text = Json json | Not_json | Load_raises py_error

text \<open>
  The log of a session is a file under \<^verbatim>\<open>.claude/logs\<close> of the working directory.
  \<^verbatim>\<open>json.dump\<close> writes a text that \<^verbatim>\<open>json.load\<close> reads back as the value dumped. The
  file system can refuse to create the directory and to open a file for reading or for
  writing; a write that is refused leaves the file as it was.
\<close>

record fs =
  files :: "string \<rightharpoonup> json_text"
  mkdir_fails :: bool
  read_fails :: "string \<Rightarrow> bool"
  write_fails :: "string \<Rightarrow> bool"

text \<open>
  The f-string puts \<^verbatim>\<open>str(session_id)\<close> into the file name: the string itself when the
  session identifier is a string. What \<^verbatim>\<open>str\<close> prints for the other values is the
  parameter \<open>str_of\<close>.
\<close>

definition py_format :: "(json \<Rightarrow> string) \<Rightarrow> json \<Rightarrow> string" where
  "py_format str_of v = (case v of JStr s \<Rightarrow> s | _ \<Rightarrow> str_of v)"

definition log_path :: "(json \<Rightarrow> string) \<Rightarrow> string \<Rightarrow> dict \<Rightarrow> string" where
  "log_path str_of stage data =
     ''.claude/logs/'' @ stage @ ''_tool_use_''
       @ py_format str_of (dict_get data ''sessionId'' (JStr ''unknown'')) @ ''.json''"

text \<open>
  Loading the existing logs: the empty list when there is no file, when it cannot be
  opened (IOError) and when its text is not JSON (JSONDecodeError); whatever value the
  text holds otherwise. An exception of \<^verbatim>\<open>json.load\<close> other than these two is not caught.
\<close>

definition load_logs :: "fs \<Rightarrow> string \<Rightarrow> py_error + json" where
  "load_logs fs log_file =
     (case files fs log_file of
        None \<Rightarrow> Inr (JArr [])
      | Some text \<Rightarrow>
          if read_fails fs log_file then Inr (JArr [])
          else (case text of
                  Json v \<Rightarrow> Inr v
                | Not_json \<Rightarrow> Inr (JArr [])
                | Load_raises e \<Rightarrow> Inl e))"

text \<open>
  \<^verbatim>\<open>log_tool_call\<close> and \<^verbatim>\<open>log_tool_execution\<close> have the same body up to the prefix of
  the file name. \<^verbatim>\<open>mkdir\<close> is outside every \<^verbatim>\<open>try\<close>, and so is \<^verbatim>\<open>logs.append\<close>, which
  only a list has.
\<close>

definition append_log :: "(json \<Rightarrow> string) \<Rightarrow> string \<Rightarrow> dict \<Rightarrow> fs \<Rightarrow> py_error + fs" where
  "append_log str_of stage data fs =
     (if mkdir_fails fs then Inl OSError
      else
        let log_file = log_path str_of stage data in
        case load_logs fs log_file of
          Inl e \<Rightarrow> Inl e
        | Inr (JArr logs) \<Rightarrow>
            if write_fails fs log_file then Inr fs
            else Inr (fs\<lparr>files := (files fs)(log_file \<mapsto> Json (JArr (logs @ [JObj data])))\<rparr>)
        | Inr v \<Rightarrow> Inl AttributeError)"

definition log_tool_call :: "(json \<Rightarrow> string) \<Rightarrow> dict \<Rightarrow> fs \<Rightarrow> py_error + fs" where
  "log_tool_call str_of = append_log str_of ''pre''"

definition log_tool_execution :: "(json \<Rightarrow> string) \<Rightarrow> dict \<Rightarrow> fs \<Rightarrow> py_error + fs" where
  "log_tool_execution str_of = append_log str_of ''post''"


section \<open>The two hooks\<close>

text \<open>
  A hook ends by \<^verbatim>\<open>sys.exit\<close> with a status, having printed some lines on the error
  channel, or by an exception that nothing catches, on which the interpreter exits with
  status 1. Standard input is given by what \<^verbatim>\<open>json.load\<close> makes of it. \<^verbatim>\<open>main\<close> catches
  the JSONDecodeError and no other exception of \<^verbatim>\<open>json.load\<close>. A payload that is not a
  dict has no \<^verbatim>\<open>get\<close>.
\<close>

datatype outcome = Exit nat "string list" | Uncaught py_error

definition exit_status :: "outcome \<Rightarrow> nat" where
  "exit_status out = (case out of Exit n lines \<Rightarrow> n | Uncaught e \<Rightarrow> 1)"

definition pre_tool_use_main :: "(json \<Rightarrow> string) \<Rightarrow> json_text \<Rightarrow> fs \<Rightarrow> outcome \<times> fs" where
  "pre_tool_use_main str_of stdin fs =
     (case stdin of
        Not_json \<Rightarrow> (Exit 0 [], fs)
      | Load_raises e \<Rightarrow> (Uncaught e, fs)
      | Json (JObj data) \<Rightarrow>
          (let tool_name = dict_get data ''tool'' (JStr '''') in
           case log_tool_call str_of data fs of
             Inl e \<Rightarrow> (Uncaught e, fs)
           | Inr fs' \<Rightarrow>
               (case evaluate tool_name data of
                  Inl e \<Rightarrow> (Uncaught e, fs')
                | Inr (BLOCK reason) \<Rightarrow> (Exit 2 reason, fs')
                | Inr ALLOW \<Rightarrow> (Exit 0 [], fs')))
      | Json v \<Rightarrow> (Uncaught AttributeError, fs))"

definition post_tool_use_main :: "(json \<Rightarrow> string) \<Rightarrow> json_text \<Rightarrow> fs \<Rightarrow> outcome \<times> fs" where
  "post_tool_use_main str_of stdin fs =
     (case stdin of
        Not_json \<Rightarrow> (Exit 0 [], fs)
      | Load_raises e \<Rightarrow> (Uncaught e, fs)
      | Json (JObj data) \<Rightarrow>
          (case log_tool_execution str_of data fs of
             Inl e \<Rightarrow> (Uncaught e, fs)
           | Inr fs' \<Rightarrow> (Exit 0 [], fs'))
      | Json v \<Rightarrow> (Uncaught AttributeError, fs))"

section \<open>Substrings, normalised commands and patterns\<close>

lemma str_in_nonempty: "str_in needle s \<Longrightarrow> needle \<noteq> [] \<Longrightarrow> s \<noteq> []"
  by (cases s) auto

lemma str_in_sublist: "str_in needle s \<longleftrightarrow> sublist needle s"
  by (induction s) (simp_all add: sublist_Cons_right)

lemma str_in_set: "str_in needle s \<Longrightarrow> set needle \<subseteq> set s"
  by (simp add: str_in_sublist set_mono_sublist)

lemma str_in_single: "str_in [c] s \<longleftrightarrow> c \<in> set s"
  by (induction s) auto

lemma split_acc_sublist: "v \<in> set (split_acc w s) \<Longrightarrow> sublist v (w @ s)"
proof (induction s arbitrary: w)
  case Nil
  then show ?case by (simp split: if_splits)
next
  case (Cons c cs)
  show ?case
  proof (cases "is_space c")
    case True
    with Cons.prems have "v = w \<or> v \<in> set (split_acc [] cs)"
      by (auto split: if_splits)
    then show ?thesis
    proof
      assume "v = w" then show ?thesis by simp
    next
      assume "v \<in> set (split_acc [] cs)"
      then have "sublist v ([] @ cs)" by (rule Cons.IH)
      then have "sublist v cs" by simp
      then obtain a b where "cs = a @ v @ b" by (auto simp: sublist_def)
      then have "w @ c # cs = (w @ c # a) @ v @ b" by simp
      then show ?thesis unfolding sublist_def by blast
    qed
  next
    case False
    with Cons.prems have "v \<in> set (split_acc (w @ [c]) cs)" by simp
    then have "sublist v ((w @ [c]) @ cs)" by (rule Cons.IH)
    then show ?thesis by simp
  qed
qed

lemma join_sublist:
  assumes "t \<noteq> []" and "CHR '' '' \<notin> set t" and "sublist t (join ws)"
  shows "\<exists>v \<in> set ws. sublist t v"
  using assms(3)
proof (induction ws rule: join.induct)
  case 1
  with assms(1) show ?case by simp
next
  case (2 w)
  then show ?case by simp
next
  case (3 w v ws)
  from "3.prems" have "sublist t (w @ (CHR '' '' # join (v # ws)))" by simp
  then consider "sublist t w" | "sublist t (CHR '' '' # join (v # ws))"
    | t1 t2 where "t = t1 @ t2" "suffix t1 w" "prefix t2 (CHR '' '' # join (v # ws))"
    unfolding sublist_append by blast
  then show ?case
  proof cases
    case 1
    then show ?thesis by auto
  next
    case 2
    then have "prefix t (CHR '' '' # join (v # ws)) \<or> sublist t (join (v # ws))"
      by (simp add: sublist_Cons_right)
    moreover have "\<not> prefix t (CHR '' '' # join (v # ws))"
      using assms(1,2) by (cases t) (auto simp: prefix_Cons)
    ultimately have "sublist t (join (v # ws))" by simp
    with "3.IH" show ?thesis by auto
  next
    case 3
    have "t2 = []"
      using 3(1,3) assms(2) by (cases t2) (auto simp: prefix_Cons)
    with 3(1,2) have "sublist t w" by auto
    then show ?thesis by auto
  qed
qed

lemma normalized_sublist:
  assumes "t \<noteq> []" and "CHR '' '' \<notin> set t" and "str_in t (join (split s))"
  shows "str_in t s"
proof -
  from assms have "\<exists>v \<in> set (split s). sublist t v"
    by (intro join_sublist) (simp_all add: str_in_sublist)
  then obtain v where "v \<in> set (split_acc [] s)" "sublist t v"
    by (auto simp: split_def)
  then have "sublist t s"
    using split_acc_sublist [of v "[]" s] sublist_order.order_trans by auto
  then show ?thesis by (simp add: str_in_sublist)
qed

lemma star_atom_suffix: "(q, u) \<in> set (star_atom a p s) \<Longrightarrow> suffix u s"
  by (induction s arbitrary: p) (auto simp: suffix_Cons split: if_splits)

lemma run_suffix: "(q, u) \<in> set (run r (p, s)) \<Longrightarrow> suffix u s"
proof (induction r arbitrary: p s q u)
  case (Atom a)
  then show ?case by (cases s) (auto simp: suffix_Cons split: if_splits)
next
  case (Plus a)
  then show ?case by (cases s) (auto simp: suffix_Cons dest: star_atom_suffix split: if_splits)
next
  case (Seq r1 r2)
  then obtain q1 u1 where "(q1, u1) \<in> set (run r1 (p, s))" "(q, u) \<in> set (run r2 (q1, u1))"
    by auto
  then show ?case using Seq.IH suffix_order.order_trans by blast
qed (auto dest: star_atom_suffix split: if_splits)

lemma seq_last_atom:
  "run (seq (rs @ [Atom a])) (p, s) \<noteq> [] \<Longrightarrow> \<exists>c \<in> set s. atom_ok a c"
proof (induction rs arbitrary: p s)
  case Nil
  then show ?case by (cases s) (auto simp: seq_def split: if_splits)
next
  case (Cons r rs)
  from Cons.prems obtain q u where qu: "(q, u) \<in> set (run r (p, s))"
    "run (seq (rs @ [Atom a])) (q, u) \<noteq> []"
    by (auto simp: seq_def)
  from Cons.IH [OF qu(2)] obtain c where "c \<in> set u" "atom_ok a c" by blast
  moreover have "set u \<subseteq> set s" using run_suffix [OF qu(1)] by (rule set_mono_suffix)
  ultimately show ?case by blast
qed

lemma search_last_atom:
  "search_from (seq (rs @ [Atom a])) p s \<Longrightarrow> \<exists>c \<in> set s. atom_ok a c"
proof (induction s arbitrary: p)
  case Nil
  then show ?case using seq_last_atom [of rs a p "[]"] by simp
next
  case (Cons x xs)
  then show ?case using seq_last_atom [of rs a p "x # xs"] by auto
qed

lemma rm_pattern2_needs_char:
  assumes "re_search rm_pattern2 s"
  shows "CHR ''~'' \<in> set s \<or> CHR ''/'' \<in> set s \<or> CHR ''.'' \<in> set s"
proof -
  have "rm_pattern2 = seq ([WordB, lit ''rm'', Plus Space, lit ''-'', Atom (OneOf ''rR''), lit ''f'',
          Plus Space] @ [Atom (OneOf ''~/.'')])"
    by (simp add: rm_pattern2_def)
  with assms obtain c where "c \<in> set s" "atom_ok (OneOf ''~/.'') c"
    unfolding re_search_def using search_last_atom by metis
  then show ?thesis by auto
qed

lemma sublist_skip_char:
  assumes "sublist t (w @ c # cs)" and "c \<notin> set t"
  shows "sublist t w \<or> sublist t cs"
proof -
  from assms(1) consider "sublist t w" | "sublist t (c # cs)"
    | t1 t2 where "t = t1 @ t2" "suffix t1 w" "prefix t2 (c # cs)"
    unfolding sublist_append by blast
  then show ?thesis
  proof cases
    case 1
    then show ?thesis by simp
  next
    case 2
    then have "prefix t (c # cs) \<or> sublist t cs" by (simp add: sublist_Cons_right)
    moreover have "prefix t (c # cs) \<Longrightarrow> t = []"
      using assms(2) by (cases t) (auto simp: prefix_Cons)
    ultimately show ?thesis by auto
  next
    case 3
    have "t2 = []" using 3(1,3) assms(2) by (cases t2) (auto simp: prefix_Cons)
    with 3(1,2) show ?thesis by auto
  qed
qed

lemma split_acc_covers:
  assumes "sublist t (w @ s)" and "t \<noteq> []" and "\<forall>c \<in> set t. \<not> is_space c"
  shows "\<exists>v \<in> set (split_acc w s). sublist t v"
  using assms(1)
proof (induction s arbitrary: w)
  case Nil
  with assms(2) show ?case by auto
next
  case (Cons c cs)
  show ?case
  proof (cases "is_space c")
    case True
    then have "c \<notin> set t" using assms(3) by blast
    with Cons.prems have "sublist t w \<or> sublist t cs" by (rule sublist_skip_char)
    then show ?thesis
    proof
      assume w: "sublist t w"
      then have "w \<noteq> []" using assms(2) by auto
      with True w show ?thesis by auto
    next
      assume "sublist t cs"
      then have "\<exists>v \<in> set (split_acc [] cs). sublist t v" using Cons.IH [of "[]"] by simp
      with True show ?thesis by auto
    qed
  next
    case False
    from Cons.prems have "sublist t ((w @ [c]) @ cs)" by simp
    then have "\<exists>v \<in> set (split_acc (w @ [c]) cs). sublist t v" by (rule Cons.IH)
    with False show ?thesis by simp
  qed
qed

lemma word_in_join: "v \<in> set ws \<Longrightarrow> sublist v (join ws)"
proof (induction ws rule: join.induct)
  case (3 w u ws)
  show ?case
  proof (cases "v = w")
    case True
    then show ?thesis by simp
  next
    case False
    with "3.prems" have "sublist v (join (u # ws))" using "3.IH" by simp
    then obtain a b where "join (u # ws) = a @ v @ b" by (auto simp: sublist_def)
    then have "join (w # u # ws) = (w @ '' '' @ a) @ v @ b" by simp
    then show ?thesis unfolding sublist_def by blast
  qed
qed simp_all

lemma normalized_keeps:
  assumes "str_in t s" and "t \<noteq> []" and "\<forall>c \<in> set t. \<not> is_space c"
  shows "str_in t (join (split s))"
proof -
  have "sublist t ([] @ s)" using assms(1) by (simp add: str_in_sublist)
  then obtain v where v: "v \<in> set (split_acc [] s)" "sublist t v"
    using split_acc_covers assms(2,3) by blast
  from v(1) have "sublist v (join (split s))" unfolding split_def by (rule word_in_join)
  with v(2) have "sublist t (join (split s))" using sublist_order.order_trans by blast
  then show ?thesis by (simp add: str_in_sublist)
qed

lemma normalized_rm_rf: "\<exists>rest'. join (split (''rm -rf '' @ rest)) = ''rm -rf'' @ rest'"
proof -
  have "split (''rm -rf '' @ rest) = ''rm'' # ''-rf'' # split_acc [] rest"
    by (simp add: split_def is_space_def)
  then show ?thesis by (cases "split_acc [] rest") simp_all
qed

lemma rm_rf_found: "re_search (rm_patterns ! 2) (''rm -rf'' @ rest)"
  by (simp add: rm_patterns_def re_search_def seq_def lit_def word_at_def is_word_def in_range_def
      is_space_def)

section \<open>Properties of the rule checks\<close>

lemma search_any_total: "\<exists>b. search_any ps (JStr c) = Inr b"
  by (induction ps) auto

lemma env_access_total:
  assumes "dict_get data ''file_path'' (JStr '''') = JStr p"
    and "dict_get data ''command'' (JStr '''') = JStr c"
  shows "\<exists>b. is_env_file_access tool_name data = Inr b"
  using assms search_any_total [of env_patterns c]
  by (auto simp: is_env_file_access_def bash_env_access_def in_either_def Let_def
      split: sum.splits bool.splits)

lemma dangerous_token_fires:
  assumes "token \<in> set dangerous_paths"
  shows "is_dangerous_rm_command (''rm -rf '' @ token @ rest)"
proof -
  let ?c = "''rm -rf '' @ token @ rest"
  obtain rest' where n: "join (split ?c) = ''rm -rf'' @ rest'"
    using normalized_rm_rf [of "token @ rest"] by auto
  have p: "re_search (rm_patterns ! 2) (join (split ?c))"
    unfolding n by (rule rm_rf_found)
  have "sublist token ?c" unfolding sublist_def by blast
  then have s: "str_in token ?c" by (simp only: str_in_sublist)
  have "token \<noteq> []" "\<forall>c \<in> set token. \<not> is_space c"
    using assms by (auto simp: dangerous_paths_def is_space_def)
  with s have t: "str_in token (join (split ?c))"
    by (rule normalized_keeps)
  have "rm_patterns ! 2 \<in> set rm_patterns"
    by (simp add: rm_patterns_def)
  with p t assms show ?thesis
    unfolding is_dangerous_rm_command_def Let_def list_ex_iff by auto
qed

text \<open>
  Claim C1. A Bash call whose command is \<^verbatim>\<open>rm -rf\<close>, a space, one of the dangerous path
  tokens (\<^verbatim>\<open>/\<close>, \<^verbatim>\<open>/*\<close>, \<^verbatim>\<open>~\<close>, \<^verbatim>\<open>$HOME\<close>, \<^verbatim>\<open>..\<close>, \<^verbatim>\<open>*\<close>, \<^verbatim>\<open>.\<close>) and then any text, or none, is
  blocked: by the rule on rm, or already by the rule on \<^verbatim>\<open>.env\<close> files. So are \<^verbatim>\<open>rm -rf /\<close>,
  \<^verbatim>\<open>rm -rf ~\<close> and \<^verbatim>\<open>rm -rf .\<close>. The record is typed as the data model has it: the file
  path, when present, is a string.
\<close>

theorem rm_dangerous_token_blocked:
  assumes "dict_get data ''command'' (JStr '''') = JStr (''rm -rf '' @ token @ rest)"
    and "token \<in> set dangerous_paths"
    and "dict_get data ''file_path'' (JStr '''') = JStr p"
  shows "evaluate (JStr ''Bash'') data = Inr (BLOCK env_reason)
       \<or> evaluate (JStr ''Bash'') data = Inr (BLOCK (rm_reason (''rm -rf '' @ token @ rest)))"
proof -
  obtain b where b: "is_env_file_access (JStr ''Bash'') data = Inr b"
    using env_access_total [OF assms(3) assms(1)] by blast
  show ?thesis
    using b assms(1) dangerous_token_fires [OF assms(2), of rest]
    by (cases b) (simp_all add: evaluate_def)
qed

theorem rm_dangerous_token_blocked_witness:
  "(evaluate (JStr ''Bash'') [(''tool'', JStr ''Bash''), (''command'', JStr ''rm -rf /'')]
      = Inr (BLOCK env_reason)
    \<or> evaluate (JStr ''Bash'') [(''tool'', JStr ''Bash''), (''command'', JStr ''rm -rf /'')]
      = Inr (BLOCK (rm_reason ''rm -rf /'')))
   \<and> (evaluate (JStr ''Bash'') [(''tool'', JStr ''Bash''), (''command'', JStr ''rm -rf ~'')]
      = Inr (BLOCK env_reason)
    \<or> evaluate (JStr ''Bash'') [(''tool'', JStr ''Bash''), (''command'', JStr ''rm -rf ~'')]
      = Inr (BLOCK (rm_reason ''rm -rf ~'')))
   \<and> (evaluate (JStr ''Bash'') [(''tool'', JStr ''Bash''), (''command'', JStr ''rm -rf .'')]
      = Inr (BLOCK env_reason)
    \<or> evaluate (JStr ''Bash'') [(''tool'', JStr ''Bash''), (''command'', JStr ''rm -rf .'')]
      = Inr (BLOCK (rm_reason ''rm -rf .'')))"
proof -
  have c: "dict_get [(''tool'', JStr ''Bash''), (''command'', JStr (''rm -rf '' @ t @ ''''))]
             ''command'' (JStr '''') = JStr (''rm -rf '' @ t @ '''')" for t
    by (simp add: dict_get_def)
  have t: "''/'' \<in> set dangerous_paths" "''~'' \<in> set dangerous_paths" "''.'' \<in> set dangerous_paths"
    by (simp_all add: dangerous_paths_def)
  have f: "dict_get [(''tool'', JStr ''Bash''), (''command'', JStr (''rm -rf '' @ t @ ''''))]
             ''file_path'' (JStr '''') = JStr ''''" for t
    by (simp add: dict_get_def)
  show ?thesis
    using rm_dangerous_token_blocked [OF c t(1) f] rm_dangerous_token_blocked [OF c t(2) f]
      rm_dangerous_token_blocked [OF c t(3) f]
    by simp
qed

lemma no_token_not_dangerous:
  assumes "\<forall>t \<in> set dangerous_paths. \<not> str_in t command"
  shows "\<not> is_dangerous_rm_command command"
proof -
  let ?cmd = "join (split command)"
  have tok: "\<not> str_in t ?cmd" if "t \<in> set dangerous_paths" for t
  proof
    assume a: "str_in t ?cmd"
    have "t \<noteq> []" "CHR '' '' \<notin> set t"
      using that by (auto simp: dangerous_paths_def)
    then have "str_in t command" using a by (rule normalized_sublist)
    with assms that show False by blast
  qed
  have chr: "c \<notin> set ?cmd" if "c \<in> {CHR ''~'', CHR ''/'', CHR ''.''}" for c
  proof -
    have "[c] \<in> set dangerous_paths" using that by (auto simp: dangerous_paths_def)
    then have "\<not> str_in [c] ?cmd" by (rule tok)
    then show ?thesis by (simp add: str_in_single)
  qed
  have "\<not> re_search rm_pattern2 ?cmd"
    using rm_pattern2_needs_char [of ?cmd] chr by blast
  moreover have "\<not> list_ex (\<lambda>path. str_in path ?cmd) dangerous_paths"
    using tok by (simp add: list_ex_iff)
  ultimately show ?thesis
    by (simp add: is_dangerous_rm_command_def list_ex_iff)
qed

lemma search_any_str: "search_any ps (JStr c) = Inr (list_ex (\<lambda>pattern. re_search pattern c) ps)"
  by (induction ps) auto

lemma bash_env_access_str:
  assumes "dict_get data ''command'' (JStr '''') = JStr c"
  shows "bash_env_access data =
    Inr (str_in ''.env'' c \<and> \<not> str_in ''.env.sample'' c \<and> \<not> str_in ''.env.example'' c
         \<and> list_ex (\<lambda>pattern. re_search pattern c) env_patterns)"
  using assms by (simp add: bash_env_access_def in_either_def search_any_str Let_def split: bool.splits)

lemma file_path_rule_silent:
  assumes "dict_get data ''file_path'' (JStr '''') = JStr p" and "\<not> str_in ''.env'' p"
  shows "is_env_file_access (JStr ''Bash'') data = bash_env_access data"
proof -
  have h: "(if truthy (JStr p) then py_in ''.env'' (JStr p) else Inr False) = Inr False"
    using assms(2) by simp
  show ?thesis
    unfolding is_env_file_access_def Let_def assms(1) h by (simp add: env_tools_def)
qed

text \<open>
  Claim C2, as amended. A Bash call whose command is \<^verbatim>\<open>rm -rf\<close> followed by a path, in
  which none of the dangerous path tokens occurs as a substring (so no \<^verbatim>\<open>/\<close>, \<^verbatim>\<open>~\<close>, \<^verbatim>\<open>*\<close>,
  \<^verbatim>\<open>.\<close> and no \<^verbatim>\<open>$HOME\<close> anywhere), and whose record carries no file path containing
  \<^verbatim>\<open>.env\<close>, is allowed.
\<close>

theorem rm_without_token_allowed:
  assumes "dict_get data ''command'' (JStr '''') = JStr (''rm -rf '' @ path)"
    and "\<forall>t \<in> set dangerous_paths. \<not> str_in t (''rm -rf '' @ path)"
    and "dict_get data ''file_path'' (JStr '''') = JStr p"
    and "\<not> str_in ''.env'' p"
  shows "evaluate (JStr ''Bash'') data = Inr ALLOW"
proof -
  have "''.'' \<in> set dangerous_paths" by (simp add: dangerous_paths_def)
  with assms(2) have "\<not> str_in ''.'' (''rm -rf '' @ path)" by blast
  then have "CHR ''.'' \<notin> set (''rm -rf '' @ path)" by (simp only: str_in_single not_False_eq_True)
  then have "\<not> str_in ''.env'' (''rm -rf '' @ path)"
    using str_in_set [of "''.env''" "''rm -rf '' @ path"] by auto
  then have "is_env_file_access (JStr ''Bash'') data = Inr False"
    using file_path_rule_silent [OF assms(3,4)] bash_env_access_str [OF assms(1)] by simp
  moreover have "\<not> is_dangerous_rm_command (''rm -rf '' @ path)"
    using assms(2) by (rule no_token_not_dangerous)
  ultimately show ?thesis
    using assms(1) by (simp add: evaluate_def)
qed

theorem rm_without_token_allowed_witness:
  "evaluate (JStr ''Bash'') [(''tool'', JStr ''Bash''), (''command'', JStr ''rm -rf build'')] = Inr ALLOW"
proof -
  let ?d = "[(''tool'', JStr ''Bash''), (''command'', JStr ''rm -rf build'')]"
  have c: "dict_get ?d ''command'' (JStr '''') = JStr (''rm -rf '' @ ''build'')"
    by (simp add: dict_get_def)
  have t: "\<forall>t \<in> set dangerous_paths. \<not> str_in t (''rm -rf '' @ ''build'')"
    by (simp add: dangerous_paths_def)
  have f: "dict_get ?d ''file_path'' (JStr '''') = JStr ''''"
    by (simp add: dict_get_def)
  have e: "\<not> str_in ''.env'' ''''" by simp
  show ?thesis using rm_without_token_allowed [OF c t f e] .
qed

text \<open>
  The example of claim C2 itself, \<^verbatim>\<open>rm -rf build/\<close>, is blocked: the token \<^verbatim>\<open>/\<close> occurs in
  it, and the tokens are looked for anywhere in the command.
\<close>

theorem rm_build_slash_counterexample:
  "evaluate (JStr ''Bash'') [(''tool'', JStr ''Bash''), (''command'', JStr ''rm -rf build/'')]
     = Inr (BLOCK (rm_reason ''rm -rf build/''))"
  by code_simp

text \<open>
  Claim C3, as amended. For a Bash call whose record carries no file path containing
  \<^verbatim>\<open>.env\<close>, the rule on \<^verbatim>\<open>.env\<close> files fires exactly when the command contains \<^verbatim>\<open>.env\<close>,
  contains neither \<^verbatim>\<open>.env.sample\<close> nor \<^verbatim>\<open>.env.example\<close>, and one of the five patterns is
  found in it. In particular \<^verbatim>\<open>cat .env\<close> is blocked, \<^verbatim>\<open>cat .env.sample\<close> and
  \<^verbatim>\<open>echo hello\<close> are allowed.
\<close>

theorem bash_env_rule:
  assumes "dict_get data ''file_path'' (JStr '''') = JStr p"
    and "\<not> str_in ''.env'' p"
    and "dict_get data ''command'' (JStr '''') = JStr c"
  shows "is_env_file_access (JStr ''Bash'') data =
           Inr (str_in ''.env'' c \<and> \<not> str_in ''.env.sample'' c \<and> \<not> str_in ''.env.example'' c
                \<and> list_ex (\<lambda>pattern. re_search pattern c) env_patterns)
       \<and> (c = ''cat .env'' \<longrightarrow> evaluate (JStr ''Bash'') data = Inr (BLOCK env_reason))
       \<and> (c = ''cat .env.sample'' \<or> c = ''echo hello'' \<longrightarrow> evaluate (JStr ''Bash'') data = Inr ALLOW)"
proof -
  have r: "is_env_file_access (JStr ''Bash'') data =
           Inr (str_in ''.env'' c \<and> \<not> str_in ''.env.sample'' c \<and> \<not> str_in ''.env.example'' c
                \<and> list_ex (\<lambda>pattern. re_search pattern c) env_patterns)"
    using file_path_rule_silent [OF assms(1,2)] bash_env_access_str [OF assms(3)] by simp
  have a: "list_ex (\<lambda>pattern. re_search pattern ''cat .env'') env_patterns" by code_simp
  have b: "\<not> is_dangerous_rm_command ''cat .env.sample''" by code_simp
  have c: "\<not> is_dangerous_rm_command ''echo hello''" by code_simp
  have 1: "evaluate (JStr ''Bash'') data = Inr (BLOCK env_reason)" if "c = ''cat .env''"
    using r a that by (simp add: evaluate_def)
  have 2: "evaluate (JStr ''Bash'') data = Inr ALLOW" if "c = ''cat .env.sample'' \<or> c = ''echo hello''"
    using that r b c assms(3) by (auto simp add: evaluate_def)
  from r 1 2 show ?thesis by blast
qed

theorem bash_env_rule_witness:
  "evaluate (JStr ''Bash'') [(''tool'', JStr ''Bash''), (''command'', JStr ''cat .env'')]
     = Inr (BLOCK env_reason)
   \<and> evaluate (JStr ''Bash'') [(''tool'', JStr ''Bash''), (''command'', JStr ''cat .env.sample'')]
     = Inr ALLOW
   \<and> evaluate (JStr ''Bash'') [(''tool'', JStr ''Bash''), (''command'', JStr ''echo hello'')]
     = Inr ALLOW"
proof -
  have f: "dict_get [(''tool'', JStr ''Bash''), (''command'', JStr c)] ''file_path'' (JStr '''')
             = JStr ''''" for c
    by (simp add: dict_get_def)
  have e: "\<not> str_in ''.env'' ''''" by simp
  have c: "dict_get [(''tool'', JStr ''Bash''), (''command'', JStr c)] ''command'' (JStr '''')
             = JStr c" for c
    by (simp add: dict_get_def)
  show ?thesis
    using bash_env_rule [OF f e c, of "''cat .env''"]
      bash_env_rule [OF f e c, of "''cat .env.sample''"]
      bash_env_rule [OF f e c, of "''echo hello''"]
    by simp
qed

text \<open>
  Claim C3 as stated fails on Bash records that carry a file path. With the file path
  \<^verbatim>\<open>.env\<close> the rule fires on the command \<^verbatim>\<open>echo hello\<close>, which does not contain \<^verbatim>\<open>.env\<close>;
  with the file path \<^verbatim>\<open>.env.sample\<close> the rule does not fire on the command \<^verbatim>\<open>cat .env\<close>.
\<close>

theorem bash_env_rule_counterexample:
  "is_env_file_access (JStr ''Bash'')
      [(''tool'', JStr ''Bash''), (''command'', JStr ''echo hello''), (''file_path'', JStr ''.env'')]
     = Inr True
   \<and> \<not> str_in ''.env'' ''echo hello''
   \<and> evaluate (JStr ''Bash'')
      [(''tool'', JStr ''Bash''), (''command'', JStr ''echo hello''), (''file_path'', JStr ''.env'')]
     = Inr (BLOCK env_reason)
   \<and> is_env_file_access (JStr ''Bash'')
      [(''tool'', JStr ''Bash''), (''command'', JStr ''cat .env''), (''file_path'', JStr ''.env.sample'')]
     = Inr False
   \<and> evaluate (JStr ''Bash'')
      [(''tool'', JStr ''Bash''), (''command'', JStr ''cat .env''), (''file_path'', JStr ''.env.sample'')]
     = Inr ALLOW"
  by code_simp

text \<open>
  When the record of one of the five tools, Bash included, carries a file path that
  contains \<^verbatim>\<open>.env\<close>, the file path alone decides the rule, whatever the command.
\<close>

lemma file_path_decides:
  assumes "tool_name \<in> set env_tools"
    and "dict_get data ''file_path'' (JStr '''') = JStr p"
    and "str_in ''.env'' p"
  shows "is_env_file_access tool_name data =
           Inr (\<not> str_in ''.env.sample'' p \<and> \<not> str_in ''.env.example'' p)"
proof -
  have "p \<noteq> []" using assms(3) str_in_nonempty [of "''.env''" p] by simp
  then have h: "(if truthy (JStr p) then py_in ''.env'' (JStr p) else Inr False) = Inr True"
    using assms(3) by simp
  have i: "in_either ''.env.sample'' ''.env.example'' (JStr p)
             = Inr (str_in ''.env.sample'' p \<or> str_in ''.env.example'' p)"
    by (simp add: in_either_def split: bool.splits)
  show ?thesis
    unfolding is_env_file_access_def Let_def assms(2) h i using assms(1)
    by (simp split: bool.splits)
qed

text \<open>
  Claim C4. An Edit call whose file path contains \<^verbatim>\<open>.env\<close> and neither \<^verbatim>\<open>.env.sample\<close> nor
  \<^verbatim>\<open>.env.example\<close> is blocked; an Edit call whose file path is \<^verbatim>\<open>.env.sample\<close> or
  \<^verbatim>\<open>.env.example\<close> is allowed.
\<close>

theorem edit_env_blocked_templates_allowed:
  assumes "dict_get data ''file_path'' (JStr '''') = JStr p"
  shows "(str_in ''.env'' p \<and> \<not> str_in ''.env.sample'' p \<and> \<not> str_in ''.env.example'' p
            \<longrightarrow> evaluate (JStr ''Edit'') data = Inr (BLOCK env_reason))
       \<and> (p = ''.env.sample'' \<or> p = ''.env.example''
            \<longrightarrow> evaluate (JStr ''Edit'') data = Inr ALLOW)"
proof (intro conjI impI)
  assume h: "str_in ''.env'' p \<and> \<not> str_in ''.env.sample'' p \<and> \<not> str_in ''.env.example'' p"
  then have "p \<noteq> []" using str_in_nonempty [of "''.env''" p] by simp
  with h assms show "evaluate (JStr ''Edit'') data = Inr (BLOCK env_reason)"
    by (simp add: evaluate_def is_env_file_access_def env_tools_def in_either_def)
next
  assume "p = ''.env.sample'' \<or> p = ''.env.example''"
  with assms show "evaluate (JStr ''Edit'') data = Inr ALLOW"
    by (auto simp: evaluate_def is_env_file_access_def env_tools_def in_either_def)
qed

theorem edit_env_blocked_templates_allowed_witness:
  "evaluate (JStr ''Edit'')
      [(''sessionId'', JStr ''s1''), (''tool'', JStr ''Edit''), (''file_path'', JStr ''config/.env'')]
     = Inr (BLOCK env_reason)
   \<and> evaluate (JStr ''Edit'') [(''tool'', JStr ''Edit''), (''file_path'', JStr ''.env.sample'')]
     = Inr ALLOW"
proof -
  have a: "dict_get [(''sessionId'', JStr ''s1''), (''tool'', JStr ''Edit''),
                     (''file_path'', JStr ''config/.env'')] ''file_path'' (JStr '''')
             = JStr ''config/.env''"
    by (simp add: dict_get_def)
  have b: "dict_get [(''tool'', JStr ''Edit''), (''file_path'', JStr ''.env.sample'')]
             ''file_path'' (JStr '''') = JStr ''.env.sample''"
    by (simp add: dict_get_def)
  show ?thesis
    using edit_env_blocked_templates_allowed [OF a] edit_env_blocked_templates_allowed [OF b]
    by simp
qed

lemma dict_get_cong:
  "map_of d1 k = map_of d2 k \<Longrightarrow> dict_get d1 k v = dict_get d2 k v"
  by (simp add: dict_get_def)

text \<open>
  The rule checks do not read the session identifier: two records that agree on every key
  but \<^verbatim>\<open>sessionId\<close> get the same outcome of the rule checks, the same decision with the same
  lines of reason, or the same exception.
\<close>

lemma rule_checks_ignore_session:
  assumes "\<forall>k. k \<noteq> ''sessionId'' \<longrightarrow> map_of d1 k = map_of d2 k"
  shows "evaluate (dict_get d1 ''tool'' (JStr '''')) d1
       = evaluate (dict_get d2 ''tool'' (JStr '''')) d2"
proof -
  have t: "dict_get d1 ''tool'' (JStr '''') = dict_get d2 ''tool'' (JStr '''')"
    using assms by (intro dict_get_cong) simp
  have f: "dict_get d1 ''file_path'' (JStr '''') = dict_get d2 ''file_path'' (JStr '''')"
    using assms by (intro dict_get_cong) simp
  have c: "dict_get d1 ''command'' (JStr '''') = dict_get d2 ''command'' (JStr '''')"
    using assms by (intro dict_get_cong) simp
  have b: "bash_env_access d1 = bash_env_access d2"
    by (simp add: bash_env_access_def c)
  have e: "is_env_file_access tn d1 = is_env_file_access tn d2" for tn
    unfolding is_env_file_access_def f b ..
  show ?thesis
    unfolding evaluate_def t c e ..
qed

section \<open>Properties of the audit log and of the hooks\<close>

lemma append_log_ok:
  assumes "\<not> mkdir_fails fs"
    and "\<not> write_fails fs (log_path str_of stage data)"
    and "load_logs fs (log_path str_of stage data) = Inr (JArr logs)"
  shows "append_log str_of stage data fs =
           Inr (fs\<lparr>files := (files fs)(log_path str_of stage data \<mapsto> Json (JArr (logs @ [JObj data])))\<rparr>)"
  using assms by (simp add: append_log_def)











lemma append_recovers_from_garbage:
  assumes "files fs (log_path str_of stage data) = Some Not_json"
    and "\<not> mkdir_fails fs" and "\<not> write_fails fs (log_path str_of stage data)"
  shows "\<exists>fs'. append_log str_of stage data fs = Inr fs'
           \<and> files fs' (log_path str_of stage data) = Some (Json (JArr [JObj data]))"
proof -
  have "load_logs fs (log_path str_of stage data) = Inr (JArr [])"
    using assms(1) by (simp add: load_logs_def)
  from append_log_ok [OF assms(2,3) this] show ?thesis by simp
qed

text \<open>
  Claim C7. A log file that holds JSON which is not a list, here the object \<^verbatim>\<open>{}\<close>, is
  content that does not parse as the expected sequence. Neither logger recovers from
  it: \<^verbatim>\<open>json.load\<close> returns the dict, \<^verbatim>\<open>logs.append\<close> raises AttributeError, which no
  handler catches, and the file is not rewritten. (On a text that is not JSON at all
  the loggers do recover, see \<open>append_recovers_from_garbage\<close>.)
\<close>

theorem append_fails_on_object_log:
  "log_tool_call str_of [(''sessionId'', JStr ''s1'')]
     \<lparr>files = [''.claude/logs/pre_tool_use_s1.json'' \<mapsto> Json (JObj [])], mkdir_fails = False,
      read_fails = (\<lambda>p. False), write_fails = (\<lambda>p. False)\<rparr> = Inl AttributeError
   \<and> log_tool_execution str_of [(''sessionId'', JStr ''s1'')]
     \<lparr>files = [''.claude/logs/post_tool_use_s1.json'' \<mapsto> Json (JObj [])], mkdir_fails = False,
      read_fails = (\<lambda>p. False), write_fails = (\<lambda>p. False)\<rparr> = Inl AttributeError"
  by (simp add: log_tool_call_def log_tool_execution_def append_log_def log_path_def
      dict_get_def py_format_def load_logs_def)

lemma json_decode_error_exits_quietly:
  "pre_tool_use_main str_of Not_json fs = (Exit 0 [], fs)
   \<and> post_tool_use_main str_of Not_json fs = (Exit 0 [], fs)"
  by (simp add: pre_tool_use_main_def post_tool_use_main_def)

text \<open>
  Claim C8. Not every input that cannot be parsed makes the hooks exit with status 0.
  On a thousand opening brackets \<^verbatim>\<open>json.load\<close> raises RecursionError, and on bytes that are
  not UTF-8 it raises UnicodeDecodeError when standard input decodes strictly; neither is
  a JSONDecodeError, the \<^verbatim>\<open>except\<close> clause of \<^verbatim>\<open>main\<close> lets it pass and the interpreter exits
  with status 1, in both hooks. Nothing is written. (On a JSONDecodeError both hooks do
  exit with status 0, see \<open>json_decode_error_exits_quietly\<close>.)
\<close>

theorem hooks_fail_on_other_load_errors:
  "pre_tool_use_main str_of (Load_raises RecursionError) fs = (Uncaught RecursionError, fs)
   \<and> exit_status (fst (pre_tool_use_main str_of (Load_raises RecursionError) fs)) = 1
   \<and> post_tool_use_main str_of (Load_raises RecursionError) fs = (Uncaught RecursionError, fs)
   \<and> exit_status (fst (post_tool_use_main str_of (Load_raises RecursionError) fs)) = 1
   \<and> pre_tool_use_main str_of (Load_raises UnicodeDecodeError) fs = (Uncaught UnicodeDecodeError, fs)
   \<and> exit_status (fst (pre_tool_use_main str_of (Load_raises UnicodeDecodeError) fs)) = 1
   \<and> post_tool_use_main str_of (Load_raises UnicodeDecodeError) fs = (Uncaught UnicodeDecodeError, fs)
   \<and> exit_status (fst (post_tool_use_main str_of (Load_raises UnicodeDecodeError) fs)) = 1"
  by (simp add: pre_tool_use_main_def post_tool_use_main_def exit_status_def)

text \<open>
  Claim C9. The post-stage hook does not exit with status 0 on every payload: the JSON
  list \<^verbatim>\<open>[1]\<close> parses, has no \<^verbatim>\<open>get\<close>, and the AttributeError ends the interpreter with
  status 1.
\<close>

theorem post_hook_fails_on_list_payload:
  "post_tool_use_main str_of (Json (JArr [JInt 1])) fs = (Uncaught AttributeError, fs)
   \<and> exit_status (fst (post_tool_use_main str_of (Json (JArr [JInt 1])) fs)) = 1"
  by (simp add: post_tool_use_main_def exit_status_def)

lemma hook_outcome_same_when_logged:
  assumes "\<forall>k. k \<noteq> ''sessionId'' \<longrightarrow> map_of d1 k = map_of d2 k"
    and "log_tool_call str_of d1 fs = Inr fs1"
    and "log_tool_call str_of d2 fs = Inr fs2"
  shows "fst (pre_tool_use_main str_of (Json (JObj d1)) fs)
       = fst (pre_tool_use_main str_of (Json (JObj d2)) fs)"
  using rule_checks_ignore_session [OF assms(1)] assms(2,3)
  by (simp add: pre_tool_use_main_def Let_def split: sum.splits decision.splits)

text \<open>
  Claim C10. The answer of the pre-stage hook is not the same for two records that differ
  in \<^verbatim>\<open>sessionId\<close> only. The rule checks do not read the session identifier
  (\<open>rule_checks_ignore_session\<close>), but \<^verbatim>\<open>log_tool_call\<close> runs before them and an exception
  it raises is not caught: when the log file of session \<^verbatim>\<open>s1\<close> holds \<^verbatim>\<open>{}\<close>, the command
  \<^verbatim>\<open>rm -rf /\<close> ends the hook with status 1 for session \<^verbatim>\<open>s1\<close> and is blocked with status 2
  for session \<^verbatim>\<open>s2\<close>.
\<close>

theorem hook_outcome_depends_on_session:
  "fst (pre_tool_use_main str_of
     (Json (JObj [(''sessionId'', JStr ''s1''), (''tool'', JStr ''Bash''), (''command'', JStr ''rm -rf /'')]))
     \<lparr>files = [''.claude/logs/pre_tool_use_s1.json'' \<mapsto> Json (JObj [])], mkdir_fails = False,
      read_fails = (\<lambda>p. False), write_fails = (\<lambda>p. False)\<rparr>)
     = Uncaught AttributeError
   \<and> fst (pre_tool_use_main str_of
     (Json (JObj [(''sessionId'', JStr ''s2''), (''tool'', JStr ''Bash''), (''command'', JStr ''rm -rf /'')]))
     \<lparr>files = [''.claude/logs/pre_tool_use_s1.json'' \<mapsto> Json (JObj [])], mkdir_fails = False,
      read_fails = (\<lambda>p. False), write_fails = (\<lambda>p. False)\<rparr>)
     = Exit 2 (rm_reason ''rm -rf /'')"
proof -
  let ?d2 = "[(''sessionId'', JStr ''s2''), (''tool'', JStr ''Bash''), (''command'', JStr ''rm -rf /'')]"
  have e: "evaluate (JStr ''Bash'') ?d2 = Inr (BLOCK (rm_reason ''rm -rf /''))"
    by code_simp
  show ?thesis
    by (simp add: pre_tool_use_main_def log_tool_call_def append_log_def load_logs_def
        log_path_def py_format_def dict_get_def e)
qed

end
